theory Spec2Isabelle
  imports Complex_Main "HOL-Library.Multiset"
begin

section \<open>Python values, exceptions and the collaborators of \<open>core.py\<close>\<close>

text \<open>
  The exceptions that can leave the two generators: the \<open>ValueError\<close> and \<open>TypeError\<close>
  of the argument checks, and whatever the queryset raises (\<open>SourceError\<close>, numbered so
  that two different errors can be told apart).
\<close>

datatype pyerr = ValueError | TypeError | SourceError nat

text \<open>
  The \<open>batchsize\<close> argument is not checked by the interpreter, so it is a Python value:
  an \<open>int\<close>, a finite \<open>float\<close> (every finite float is a rational number, and Python
  compares an int with a float exactly), or a value of a type that has no order with
  \<open>int\<close> (\<open>str\<close>, \<open>list\<close>, \<open>dict\<close>, \<open>set\<close>, \<open>tuple\<close>, \<open>object\<close>), where \<open><\<close> raises
  \<open>TypeError\<close>.
\<close>

datatype pyval = PyInt int | PyFloat rat | PyOther

text \<open>\<open>v < i\<close> for an int literal \<open>i\<close> (line 30 and 88: \<open>batchsize < 1\<close>).\<close>

fun lt_int :: "pyval \<Rightarrow> int \<Rightarrow> pyerr + bool" where
  "lt_int (PyInt n) i = Inr (n < i)"
| "lt_int (PyFloat q) i = Inr (q < of_int i)"
| "lt_int PyOther i = Inl TypeError"

text \<open>\<open>i < v\<close> for an int \<open>i\<close> (line 47 and 105: \<open>len(pk_buffer) < batchsize\<close>).\<close>

fun int_lt :: "int \<Rightarrow> pyval \<Rightarrow> pyerr + bool" where
  "int_lt i (PyInt n) = Inr (i < n)"
| "int_lt i (PyFloat q) = Inr (of_int i < q)"
| "int_lt i PyOther = Inl TypeError"

text \<open>\<open>isinstance(v, int)\<close> (line 91).\<close>

fun isinstance_int :: "pyval \<Rightarrow> bool" where
  "isinstance_int (PyInt n) = True"
| "isinstance_int (PyFloat q) = False"
| "isinstance_int PyOther = False"

definition GC_COLLECT_BATCH :: int where
  "GC_COLLECT_BATCH = 1"

definition GC_COLLECT_END :: int where
  "GC_COLLECT_END = 2"

text \<open>
  The queryset is a collaborator that \<open>core.py\<close> only calls. It is taken as a parameter:
  \<^item> \<open>pk_iterator\<close> is what \<open>queryset.values_list('pk', flat=True).distinct().iterator()\<close>
    gives, as the outcomes of its successive draws: \<open>Inr k\<close> returns the key \<open>k\<close>,
    \<open>Inl e\<close> raises \<open>e\<close>, and a draw past the end of the list raises \<open>StopIteration\<close>.
    \<open>iterator.next()\<close> (line 48) and \<open>iterator.__next__()\<close> (line 106) both denote this
    draw;
  \<^item> \<open>filter_pk_in buf\<close> is what iterating \<open>queryset.filter(pk__in=buf).iterator()\<close> gives:
    the records it produces, and then the error it raises, if any.
\<close>

record ('k, 'r) queryset =
  pk_iterator :: "(pyerr + 'k) list"
  filter_pk_in :: "'k list \<Rightarrow> 'r list \<times> pyerr option"

text \<open>
  What a generator hands to its consumer: a record (line 58), or the lazy queryset
  \<open>queryset.filter(pk__in=pk_buffer)\<close> itself (lines 62 and 113), which is determined by
  the buffer it was built from and fetches nothing until the consumer iterates it.
\<close>

datatype ('k, 'r) item = Record 'r | Handle "'k list"

text \<open>
  The behaviour of a generator body is the chronological list of what it does to the
  outside world: opening the key iterator, each draw with its outcome, each call of
  \<open>queryset.filter\<close>, an error raised while its result is iterated, each \<open>yield\<close>,
  each \<open>gc.collect()\<close>; and the way the body ends (it returns, or an exception
  leaves it).
\<close>

datatype ('k, 'r) action =
    OpenKeys
  | Drew 'k
  | DrawRaised pyerr
  | DrawStop
  | Filter "'k list"
  | FetchRaised pyerr
  | Yield "('k, 'r) item"
  | Collect

datatype terminal = Stop | Raise pyerr

type_synonym ('k, 'r) trace = "('k, 'r) action list \<times> terminal"

text \<open>
  How the \<open>try\<close> statement of one pass completes once its \<open>finally\<close> block is done:
  the \<open>try\<close> body ran to its end, \<open>StopIteration\<close> was caught and \<open>break\<close> is pending,
  or another exception is pending and is raised again.
\<close>

datatype completion = Fallthrough | Break | Reraise pyerr

section \<open>The generators\<close>

text \<open>
  Lines 47-48 and 105-106, the same loop in both functions:
  \<^verbatim>\<open>
  while len(pk_buffer) < batchsize:
      pk_buffer.append(iterator.next())
  \<close>
  The result is the draws made, the buffer, the rest of the key iterator and the way
  the \<open>try\<close> body was left.
\<close>

fun fill :: "pyval \<Rightarrow> 'k list \<Rightarrow> (pyerr + 'k) list \<Rightarrow>
    ('k, 'r) action list \<times> 'k list \<times> (pyerr + 'k) list \<times> completion" where
  "fill batchsize pk_buffer iterator =
     (case int_lt (int (length pk_buffer)) batchsize of
        Inl e \<Rightarrow> ([], pk_buffer, iterator, Reraise e)
      | Inr False \<Rightarrow> ([], pk_buffer, iterator, Fallthrough)
      | Inr True \<Rightarrow>
          (case iterator of
             [] \<Rightarrow> ([DrawStop], pk_buffer, [], Break)
           | Inl e # rest \<Rightarrow> ([DrawRaised e], pk_buffer, rest, Reraise e)
           | Inr k # rest \<Rightarrow>
               (case fill batchsize (pk_buffer @ [k]) rest of
                  (acts, buf, it, c) \<Rightarrow> (Drew k # acts, buf, it, c))))"

declare fill.simps [simp del]

text \<open>Lines 64-67 and 115-118: \<open>if gc_collect == GC_COLLECT_BATCH and pk_buffer\<close>.\<close>

definition collect_batch :: "int \<Rightarrow> 'k list \<Rightarrow> ('k, 'r) action list" where
  "collect_batch gc_collect pk_buffer =
     (if gc_collect = GC_COLLECT_BATCH \<and> pk_buffer \<noteq> [] then [Collect] else [])"

text \<open>Lines 69-71 and 120-122: \<open>if gc_collect == GC_COLLECT_END\<close>, after the loop.\<close>

definition collect_end :: "int \<Rightarrow> ('k, 'r) action list" where
  "collect_end gc_collect = (if gc_collect = GC_COLLECT_END then [Collect] else [])"

text \<open>
  The \<open>finally\<close> block of \<open>queryset_iterator\<close> (lines 52-67). It gives what the block
  does and the exception that leaves it, if any: an error of the fetch leaves the
  \<open>for\<close> loop of line 57 at once, so \<open>gc.collect()\<close> is not reached.
\<close>

definition finally_qi :: "bool \<Rightarrow> int \<Rightarrow> ('k, 'r) queryset \<Rightarrow> 'k list \<Rightarrow>
    ('k, 'r) action list \<times> pyerr option" where
  "finally_qi iterator_return gc_collect queryset pk_buffer =
     (if iterator_return then
        (case filter_pk_in queryset pk_buffer of
           (results, Some e) \<Rightarrow>
             (Filter pk_buffer # map (\<lambda>r. Yield (Record r)) results @ [FetchRaised e], Some e)
         | (results, None) \<Rightarrow>
             (Filter pk_buffer # map (\<lambda>r. Yield (Record r)) results
                @ collect_batch gc_collect pk_buffer, None))
      else
        (Filter pk_buffer # Yield (Handle pk_buffer) # collect_batch gc_collect pk_buffer,
         None))"

text \<open>
  The \<open>while True\<close> loop of \<open>queryset_iterator\<close> with what follows it (lines 42-71),
  from the loop head with the key iterator at \<open>iterator\<close>. The \<open>finally\<close> block runs on
  every way out of the \<open>try\<close> body; an exception raised inside it replaces the pending
  completion. \<open>None\<close> is a body that never ends.
\<close>

partial_function (option) qi_loop :: "pyval \<Rightarrow> int \<Rightarrow> bool \<Rightarrow> ('k, 'r) queryset \<Rightarrow>
    (pyerr + 'k) list \<Rightarrow> ('k, 'r) trace option" where
  "qi_loop batchsize gc_collect iterator_return queryset iterator =
     (case fill batchsize [] iterator of
        (draws, pk_buffer, iterator', c) \<Rightarrow>
          (case finally_qi iterator_return gc_collect queryset pk_buffer of
             (acts, Some e) \<Rightarrow> Some (draws @ acts, Raise e)
           | (acts, None) \<Rightarrow>
               (case c of
                  Break \<Rightarrow> Some (draws @ acts @ collect_end gc_collect, Stop)
                | Reraise e \<Rightarrow> Some (draws @ acts, Raise e)
                | Fallthrough \<Rightarrow>
                    Option.bind
                      (qi_loop batchsize gc_collect iterator_return queryset iterator')
                      (\<lambda>t. Some (draws @ acts @ fst t, snd t)))))"

text \<open>
  The body of \<open>queryset_iterator\<close> (lines 30-71): the check of line 30, the key
  iterator of line 39, the loop.
\<close>

definition queryset_iterator :: "('k, 'r) queryset \<Rightarrow> pyval \<Rightarrow> int \<Rightarrow> bool \<Rightarrow>
    ('k, 'r) trace option" where
  "queryset_iterator queryset batchsize gc_collect iterator_return =
     (case lt_int batchsize 1 of
        Inl e \<Rightarrow> Some ([], Raise e)
      | Inr True \<Rightarrow> Some ([], Raise ValueError)
      | Inr False \<Rightarrow>
          Option.bind
            (qi_loop batchsize gc_collect iterator_return queryset (pk_iterator queryset))
            (\<lambda>t. Some (OpenKeys # fst t, snd t)))"

text \<open>The \<open>finally\<close> block of \<open>queryset_iterator_qs\<close> (lines 110-118).\<close>

definition finally_qs :: "int \<Rightarrow> 'k list \<Rightarrow> ('k, 'r) action list" where
  "finally_qs gc_collect pk_buffer =
     Filter pk_buffer # Yield (Handle pk_buffer) # collect_batch gc_collect pk_buffer"

text \<open>The \<open>while True\<close> loop of \<open>queryset_iterator_qs\<close> with what follows it
  (lines 100-122).\<close>

partial_function (option) qs_loop :: "pyval \<Rightarrow> int \<Rightarrow> (pyerr + 'k) list \<Rightarrow>
    ('k, 'r) trace option" where
  "qs_loop batchsize gc_collect iterator =
     (case fill batchsize [] iterator of
        (draws, pk_buffer, iterator', c) \<Rightarrow>
          (case c of
             Break \<Rightarrow>
               Some (draws @ finally_qs gc_collect pk_buffer @ collect_end gc_collect, Stop)
           | Reraise e \<Rightarrow> Some (draws @ finally_qs gc_collect pk_buffer, Raise e)
           | Fallthrough \<Rightarrow>
               Option.bind (qs_loop batchsize gc_collect iterator')
                 (\<lambda>t. Some (draws @ finally_qs gc_collect pk_buffer @ fst t, snd t))))"

text \<open>
  The body of \<open>queryset_iterator_qs\<close> (lines 88-122): the check of line 88, the check
  of line 91, the key iterator of line 97, the loop.
\<close>

definition queryset_iterator_qs :: "('k, 'r) queryset \<Rightarrow> pyval \<Rightarrow> int \<Rightarrow>
    ('k, 'r) trace option" where
  "queryset_iterator_qs queryset batchsize gc_collect =
     (case lt_int batchsize 1 of
        Inl e \<Rightarrow> Some ([], Raise e)
      | Inr True \<Rightarrow> Some ([], Raise ValueError)
      | Inr False \<Rightarrow>
          (if \<not> isinstance_int batchsize then Some ([], Raise TypeError)
           else
             Option.bind (qs_loop batchsize gc_collect (pk_iterator queryset))
               (\<lambda>t. Some (OpenKeys # fst t, snd t))))"

section \<open>Demands on a generator\<close>

text \<open>
  Calling a generator function runs none of its body: the call gives a generator
  object, and the body runs on the consumer's demands (\<open>next\<close>), each up to the next
  \<open>yield\<close>. A generator object is therefore the trace it still has to run, and
  \<open>gen_next\<close> is one demand: what the body does during it, what the consumer gets, and
  the generator afterwards. A generator that has returned or raised is exhausted.
\<close>

datatype ('k, 'r) result = Yielded "('k, 'r) item" | Raised pyerr | Stopped

fun gen_next :: "('k, 'r) trace \<Rightarrow>
    ('k, 'r) action list \<times> ('k, 'r) result \<times> ('k, 'r) trace" where
  "gen_next ([], Stop) = ([], Stopped, ([], Stop))"
| "gen_next ([], Raise e) = ([], Raised e, ([], Stop))"
| "gen_next (Yield v # rest, t) = ([], Yielded v, (rest, t))"
| "gen_next (a # rest, t) =
     (case gen_next (rest, t) of (acts, r, g) \<Rightarrow> (a # acts, r, g))"

section \<open>Reading a trace\<close>

text \<open>The buffers handed to \<open>queryset.filter\<close>, in order.\<close>

fun buffers_of :: "('k, 'r) action list \<Rightarrow> 'k list list" where
  "buffers_of [] = []"
| "buffers_of (Filter buf # acts) = buf # buffers_of acts"
| "buffers_of (a # acts) = buffers_of acts"




section \<open>Batches of a key sequence\<close>

text \<open>
  The key sequence cut into buffers the way the passes of the loop draw it: buffers of
  \<open>n\<close> keys as long as \<open>n\<close> keys are left, then the buffer of the keys that remain,
  which is empty when \<open>n\<close> divides the number of keys.
\<close>

function chunks :: "nat \<Rightarrow> 'a list \<Rightarrow> 'a list list" where
  "chunks n xs =
     (if n = 0 \<or> length xs < n then [xs] else take n xs # chunks n (drop n xs))"
  by pat_completeness auto
termination
  by (relation "measure (\<lambda>(n, xs). length xs)") auto

declare chunks.simps [simp del]

text \<open>
  One pass of the loop of \<open>queryset_iterator\<close> over a buffer, when nothing raises:
  the draws (with the \<open>StopIteration\<close> that ends a short buffer), the call of
  \<open>queryset.filter\<close>, the yield step, and \<open>gc.collect()\<close> if the policy asks for it
  and the buffer is non-empty.
\<close>

definition yield_step :: "bool \<Rightarrow> ('k, 'r) queryset \<Rightarrow> 'k list \<Rightarrow> ('k, 'r) action list" where
  "yield_step iterator_return queryset buf =
     (if iterator_return then map (\<lambda>r. Yield (Record r)) (fst (filter_pk_in queryset buf))
      else [Yield (Handle buf)])"

definition pass :: "nat \<Rightarrow> int \<Rightarrow> bool \<Rightarrow> ('k, 'r) queryset \<Rightarrow> 'k list \<Rightarrow>
    ('k, 'r) action list" where
  "pass n gc_collect iterator_return queryset buf =
     map Drew buf @ (if length buf < n then [DrawStop] else [])
       @ Filter buf # yield_step iterator_return queryset buf
       @ collect_batch gc_collect buf"

text \<open>
  Modelled from the spec: the queryset itself (Django's \<open>QuerySet\<close>) is not part of
  the sources. A table of rows, each with a primary key \<open>pk\<close>:
  \<open>DataSource.keys()\<close> is the duplicate-free sequence of the keys of the rows, and
  \<open>DataSource.fetch(key_set)\<close> gives the rows whose key is in \<open>key_set\<close>; neither
  raises.
\<close>

definition table_source :: "('r \<Rightarrow> 'k) \<Rightarrow> 'r list \<Rightarrow> ('k, 'r) queryset" where
  "table_source pk rows =
     \<lparr> pk_iterator = map Inr (remdups (map pk rows)),
       filter_pk_in = (\<lambda>buf. (filter (\<lambda>r. pk r \<in> set buf) rows, None)) \<rparr>"

text \<open>
  Querysets to run the generators on: a table of two rows \<open>(pk, pk_info)\<close>, built as
  the rows of \<open>tests.py\<close> are, and the empty table.
\<close>

definition two_rows :: "(int, int \<times> string) queryset" where
  "two_rows = table_source fst [(1, ''1''), (2, ''2'')]"

definition no_rows :: "(int, int \<times> string) queryset" where
  "no_rows = table_source fst []"


section \<open>Errors of the queryset in a trace\<close>

text \<open>The actions on the key iterator after it is opened: the draws.\<close>

fun is_draw :: "('k, 'r) action \<Rightarrow> bool" where
  "is_draw (Drew k) = True"
| "is_draw (DrawRaised e) = True"
| "is_draw DrawStop = True"
| "is_draw a = False"


section \<open>The inner loop and the two outer loops\<close>

text \<open>On keys that are all drawn without error, the inner loop takes what the buffer
  still lacks, or what is left.\<close>

lemma fill_keys:
  "length buf \<le> n \<Longrightarrow>
   fill (PyInt (int n)) buf (map Inr ks) =
     (map Drew (take (n - length buf) ks) @ (if length ks < n - length buf then [DrawStop] else [])
        :: ('k, 'r) action list,
      buf @ take (n - length buf) ks,
      map Inr (drop (n - length buf) ks),
      if length ks < n - length buf then Break else Fallthrough)"
proof (induction ks arbitrary: buf)
  case Nil
  then show ?case by (cases "length buf = n") (auto simp: fill.simps)
next
  case (Cons k ks)
  show ?case
  proof (cases "length buf = n")
    case True
    then show ?thesis by (simp add: fill.simps)
  next
    case False
    with Cons.prems have lt: "length buf < n" by simp
    then have le: "length (buf @ [k]) \<le> n" by simp
    from lt obtain m where m: "n - length buf = Suc m" by (cases "n - length buf") auto
    then have m': "n - Suc (length buf) = m" by simp
    have ih: "fill (PyInt (int n)) (buf @ [k]) (map Inr ks) =
     (map Drew (take m ks) @ (if length ks < m then [DrawStop] else []) :: ('k, 'r) action list,
      (buf @ [k]) @ take m ks,
      map Inr (drop m ks),
      if length ks < m then Break else Fallthrough)"
      using Cons.IH [OF le] by (simp add: m' split del: if_split)
    show ?thesis
      apply (subst fill.simps)
      using lt apply (simp add: ih m)
      done
  qed
qed

lemma fill_length:
  "fill b buf it = (d, buf', it', c) \<Longrightarrow> length it' \<le> length it"
proof (induction it arbitrary: buf d buf' it' c)
  case Nil
  then show ?case by (auto simp: fill.simps split: sum.splits bool.splits)
next
  case (Cons x it)
  from Cons.prems show ?case
    apply (subst (asm) fill.simps)
    apply (auto split: sum.splits bool.splits prod.splits dest: Cons.IH)
    done
qed

lemma fill_progress:
  "fill b buf it = (d, buf', it', Fallthrough) \<Longrightarrow> int_lt (int (length buf)) b = Inr True \<Longrightarrow>
   length it' < length it"
  apply (subst (asm) fill.simps)
  apply (auto split: sum.splits bool.splits prod.splits list.splits dest: fill_length)
  done


lemma length_chunks: "0 < n \<Longrightarrow> length (chunks n xs) = length xs div n + 1"
proof (induction n xs rule: chunks.induct)
  case (1 n xs)
  show ?case
  proof (cases "length xs < n")
    case True
    then show ?thesis by (subst chunks.simps) simp
  next
    case False
    with 1 have "length (chunks n (drop n xs)) = (length xs - n) div n + 1" by simp
    with False 1(2) show ?thesis
      by (subst chunks.simps) (simp add: le_div_geq)
  qed
qed

lemma last_chunks: "0 < n \<Longrightarrow> length (last (chunks n xs)) = length xs mod n"
proof (induction n xs rule: chunks.induct)
  case (1 n xs)
  show ?case
  proof (cases "length xs < n")
    case True
    then show ?thesis by (subst chunks.simps) simp
  next
    case False
    with 1 have ih: "length (last (chunks n (drop n xs))) = (length xs - n) mod n" by simp
    have ne: "chunks n (drop n xs) \<noteq> []"
      by (subst chunks.simps) simp
    from False 1(2) ih ne show ?thesis
      by (subst chunks.simps) (simp add: le_mod_geq)
  qed
qed

lemma finally_qi_False:
  "finally_qi False gc q buf = (finally_qs gc buf, None)"
  by (simp add: finally_qi_def finally_qs_def)

lemma loops_agree:
  "1 \<le> b \<Longrightarrow> qi_loop (PyInt b) gc False q it = qs_loop (PyInt b) gc it"
proof (induction it rule: measure_induct_rule [where f = length])
  case (less it)
  obtain d :: "('a, 'b) action list" and buf it' c
    where f: "fill (PyInt b) [] it = (d, buf, it', c)"
    using prod_cases4 by blast
  show ?case
  proof (cases c)
    case Fallthrough
    with f less.prems have "length it' < length it"
      by (auto intro: fill_progress)
    then have "qi_loop (PyInt b) gc False q it' = qs_loop (PyInt b) gc it'"
      using less.IH less.prems by blast
    with f Fallthrough show ?thesis
      by (subst qi_loop.simps, subst qs_loop.simps) (simp add: finally_qi_False)
  next
    case Break
    with f show ?thesis
      by (subst qi_loop.simps, subst qs_loop.simps) (simp add: finally_qi_False)
  next
    case (Reraise e)
    with f show ?thesis
      by (subst qi_loop.simps, subst qs_loop.simps) (simp add: finally_qi_False)
  qed
qed


text \<open>
  When nothing raises, the trace of \<open>queryset_iterator\<close> with an integer
  \<open>batchsize\<close> of at least 1 is one pass for each buffer of \<open>chunks\<close>, and the
  \<open>gc.collect()\<close> after the loop.
\<close>

lemma finally_qi_ok:
  "snd (filter_pk_in q buf) = None \<Longrightarrow>
   finally_qi ir gc q buf = (Filter buf # yield_step ir q buf @ collect_batch gc buf, None)"
  by (cases "filter_pk_in q buf") (simp add: finally_qi_def yield_step_def)

lemma qi_loop_trace:
  assumes b: "1 \<le> b" and ok: "\<And>buf. snd (filter_pk_in q buf) = None"
  shows "qi_loop (PyInt b) gc ir q (map Inr ks) =
    Some (concat (map (pass (nat b) gc ir q) (chunks (nat b) ks)) @ collect_end gc, Stop)"
proof (induction ks rule: measure_induct_rule [where f = length])
  case (less ks)
  define n where "n = nat b"
  with b have n: "0 < n" and bn: "b = int n" by simp_all
  have f: "fill (PyInt b) [] (map Inr ks) =
     (map Drew (take n ks) @ (if length ks < n then [DrawStop] else []) :: ('a, 'b) action list,
      take n ks, map Inr (drop n ks), if length ks < n then Break else Fallthrough)"
    unfolding bn using fill_keys [of "[]" n ks] by simp
  show ?case
  proof (cases "length ks < n")
    case True
    then have c: "chunks n ks = [ks]" by (subst chunks.simps) simp
    from True show ?thesis
      by (subst qi_loop.simps) (simp add: f finally_qi_ok ok c pass_def n_def [symmetric])
  next
    case False
    with n have c: "chunks n ks = take n ks # chunks n (drop n ks)"
      by (subst chunks.simps) simp
    from False n have "length (drop n ks) < length ks" by simp
    then have ih: "qi_loop (PyInt b) gc ir q (map Inr (drop n ks)) =
      Some (concat (map (pass (nat b) gc ir q) (chunks (nat b) (drop n ks))) @ collect_end gc, Stop)"
      by (rule less.IH)
    from False show ?thesis
      by (subst qi_loop.simps) (simp add: f finally_qi_ok ok c ih pass_def n_def [symmetric])
  qed
qed

lemma buffers_of_append: "buffers_of (xs @ ys) = buffers_of xs @ buffers_of ys"
  by (induction xs rule: buffers_of.induct) simp_all




lemma buffers_of_Drew: "buffers_of (map Drew ks) = []"
  by (induction ks) simp_all



lemma buffers_of_Records: "buffers_of (map (\<lambda>r. Yield (Record r)) rs) = []"
  by (induction rs) simp_all




lemma buffers_of_pass: "buffers_of (pass n gc ir q buf) = [buf]"
  by (simp add: pass_def yield_step_def collect_batch_def buffers_of_append buffers_of_Drew
      buffers_of_Records)

lemma buffers_of_passes: "buffers_of (concat (map (pass n gc ir q) bs)) = bs"
  by (induction bs) (simp_all add: buffers_of_append buffers_of_pass)

lemma buffers_of_collect_end: "buffers_of (collect_end gc) = []"
  by (simp add: collect_end_def)





lemma queryset_iterator_trace:
  assumes "1 \<le> b" and "pk_iterator q = map Inr ks"
    and "\<And>buf. snd (filter_pk_in q buf) = None"
  shows "queryset_iterator q (PyInt b) gc ir =
    Some (OpenKeys # concat (map (pass (nat b) gc ir q) (chunks (nat b) ks)) @ collect_end gc,
          Stop)"
  using assms by (simp add: queryset_iterator_def qi_loop_trace)

lemma qs_is_qi_False:
  "queryset_iterator_qs q (PyInt b) gc = queryset_iterator q (PyInt b) gc False"
  by (cases "b < 1")
    (simp_all add: queryset_iterator_def queryset_iterator_qs_def loops_agree)

lemma chunks_Nil: "chunks n [] = [[]]"
  by (subst chunks.simps) auto








text \<open>The example querysets, and the loop of \<open>queryset_iterator\<close> run on them.\<close>

lemma two_rows_keys: "pk_iterator two_rows = map Inr [1, 2]"
  by (simp add: two_rows_def table_source_def)

lemma two_rows_fetch: "snd (filter_pk_in two_rows buf) = None"
  by (simp add: two_rows_def table_source_def)

lemma chunks_2_two: "chunks 2 [1, 2 :: int] = [[1, 2], []]"
  by (simp add: chunks.simps [of 2 "[1, 2]"] chunks_Nil)

lemma no_rows_keys: "pk_iterator no_rows = map Inr []"
  by (simp add: no_rows_def table_source_def)

lemma no_rows_fetch: "snd (filter_pk_in no_rows buf) = None"
  by (simp add: no_rows_def table_source_def)











lemma is_draw_Records: "a \<in> set (map (\<lambda>r. Yield (Record r)) rs) \<Longrightarrow> \<not> is_draw a"
  by auto









section \<open>Argument checks\<close>

text \<open>
  C4. For every integer \<open>batchsize\<close> below 1, both generators fail with \<open>ValueError\<close>.
  The call itself gives a generator and raises nothing; the first demand on that
  generator raises the error, and nothing has been done to the queryset by then: the
  key iterator is not opened and no key is drawn.
\<close>

theorem batchsize_below_one_raises_on_first_demand:
  "b < 1 \<Longrightarrow>
   (\<exists>g. queryset_iterator q (PyInt b) gc ir = Some g \<and>
        gen_next g = ([], Raised ValueError, ([], Stop))) \<and>
   (\<exists>g. queryset_iterator_qs q (PyInt b) gc = Some g \<and>
        gen_next g = ([], Raised ValueError, ([], Stop)))"
  by (simp add: queryset_iterator_def queryset_iterator_qs_def)

theorem batchsize_below_one_raises_on_first_demand_witness:
  "(0::int) < 1 \<and>
   (\<exists>g. queryset_iterator two_rows (PyInt 0) GC_COLLECT_BATCH True = Some g \<and>
        gen_next g = ([], Raised ValueError, ([], Stop))) \<and>
   (\<exists>g. queryset_iterator_qs two_rows (PyInt 0) GC_COLLECT_BATCH = Some g \<and>
        gen_next g = ([], Raised ValueError, ([], Stop)))"
  using batchsize_below_one_raises_on_first_demand [of 0 two_rows GC_COLLECT_BATCH True]
  by simp

text \<open>
  C10. In \<open>queryset_iterator_qs\<close> the check \<open>batchsize < 1\<close> comes before the
  \<open>isinstance\<close> check: a \<open>batchsize\<close> that is not an int and compares less than 1
  gives \<open>ValueError\<close>, and the argument checks give \<open>TypeError\<close> exactly for a
  \<open>batchsize\<close> that is not an int and does not compare less than 1.
\<close>

theorem qs_size_check_precedes_type_check:
  "(\<not> isinstance_int v \<and> lt_int v 1 = Inr True \<longrightarrow>
      queryset_iterator_qs q v gc = Some ([], Raise ValueError)) \<and>
   (queryset_iterator_qs q v gc = Some ([], Raise TypeError) \<longleftrightarrow>
      \<not> isinstance_int v \<and> lt_int v 1 \<noteq> Inr True)"
  by (cases v)
    (auto simp: queryset_iterator_qs_def split: option.splits bool.splits Option.bind_splits)

theorem qs_size_check_precedes_type_check_witness:
  "\<not> isinstance_int (PyFloat (1 / 2)) \<and> lt_int (PyFloat (1 / 2)) 1 = Inr True \<and>
   queryset_iterator_qs two_rows (PyFloat (1 / 2)) GC_COLLECT_BATCH
     = Some ([], Raise ValueError)"
  using qs_size_check_precedes_type_check [of "PyFloat (1 / 2)" two_rows GC_COLLECT_BATCH]
  by simp



section \<open>The two generators agree\<close>


section \<open>A full pass\<close>



section \<open>The calls of \<open>gc.collect()\<close>\<close>








section \<open>The pass after the last key\<close>

text \<open>
  C1. The claim is that nothing is yielded for the empty buffer that ends a pass over a
  number of keys that is a multiple of \<open>batchsize\<close>. In record mode nothing is: the
  \<open>for\<close> loop of line 57 runs over no records. In batch mode the \<open>finally\<close> block
  yields \<open>queryset.filter(pk__in=[])\<close>: with two keys and \<open>batchsize = 2\<close> the
  consumer gets the handle of \<open>[1, 2]\<close> and then the handle of the empty buffer, and
  with no keys at all it gets the handle of the empty buffer.
\<close>

theorem batches_mode_yields_handle_for_empty_buffer:
  "queryset_iterator_qs two_rows (PyInt 2) GC_COLLECT_BATCH =
     Some ([OpenKeys, Drew 1, Drew 2, Filter [1, 2], Yield (Handle [1, 2]), Collect,
            DrawStop, Filter [], Yield (Handle [])], Stop) \<and>
   queryset_iterator two_rows (PyInt 2) GC_COLLECT_BATCH False =
     Some ([OpenKeys, Drew 1, Drew 2, Filter [1, 2], Yield (Handle [1, 2]), Collect,
            DrawStop, Filter [], Yield (Handle [])], Stop) \<and>
   queryset_iterator_qs no_rows (PyInt 1) GC_COLLECT_BATCH =
     Some ([OpenKeys, DrawStop, Filter [], Yield (Handle [])], Stop)"
  using queryset_iterator_trace [of 2 two_rows "[1, 2]" GC_COLLECT_BATCH False]
    queryset_iterator_trace [of 1 no_rows "[]" GC_COLLECT_BATCH False]
  by (simp add: qs_is_qi_False two_rows_keys two_rows_fetch no_rows_keys no_rows_fetch
      chunks_2_two chunks_Nil pass_def yield_step_def collect_batch_def collect_end_def
      GC_COLLECT_BATCH_def GC_COLLECT_END_def)


section \<open>Errors of the queryset\<close>





text \<open>
  For any number \<open>n\<close> of keys drawn without error, the full pass calls
  \<open>queryset.filter\<close> \<open>n div batchsize + 1\<close> times, the last time with
  \<open>n mod batchsize\<close> keys.
\<close>

lemma filter_calls_count:
  assumes "1 \<le> b" and "pk_iterator q = map Inr ks"
    and "\<And>buf. snd (filter_pk_in q buf) = None"
  shows "\<exists>acts. queryset_iterator q (PyInt b) gc ir = Some (acts, Stop) \<and>
      length (buffers_of acts) = length ks div nat b + 1 \<and>
      length (last (buffers_of acts)) = length ks mod nat b"
proof -
  let ?acts = "OpenKeys # concat (map (pass (nat b) gc ir q) (chunks (nat b) ks)) @ collect_end gc"
  have t: "queryset_iterator q (PyInt b) gc ir = Some (?acts, Stop)"
    using assms by (rule queryset_iterator_trace)
  have bufs: "buffers_of ?acts = chunks (nat b) ks"
    by (simp add: buffers_of_append buffers_of_passes buffers_of_collect_end)
  from assms(1) have n: "0 < nat b" by simp
  show ?thesis
    apply (rule exI [of _ ?acts])
    unfolding bufs
    using t length_chunks [OF n, of ks] last_chunks [OF n, of ks] apply simp
    done
qed

end
